theory Spec2Isabelle
  imports Main "HOL-Library.List_Lexorder"
begin

section \<open>Search query generator: the data of \<open>sqg.py\<close>\<close>

text \<open>
  A Python \<open>str\<close> is a sequence of Unicode code points, compared lexicographically by
  code point; it is modelled as a list of natural numbers, ordered by the lexicographic
  order on lists.  \<open>lit\<close> turns an ASCII literal of the source into such a string.
\<close>

type_synonym str = "nat list"

definition lit :: "string \<Rightarrow> str" where
  "lit s = map of_char s"

text \<open>
  A Python \<open>Set[str]\<close> is modelled by the list of its elements in the order in which the
  set happens to iterate: no element occurs twice, and the order is arbitrary (it depends
  on the hashes and on the history of the set).  The source only ever iterates such a set
  through \<open>sorted\<close>, tests it for emptiness, or builds the singleton \<open>{val}\<close>.

  A Python \<open>dict\<close> iterates in insertion order: it is modelled by the list of its items,
  with pairwise different keys.
\<close>

type_synonym str_set = "str list"
type_synonym ('k, 'v) dict = "('k \<times> 'v) list"

text \<open>The values of a group's settings have the type \<open>Union[bool, str]\<close>.\<close>

datatype pyval = PBool bool | PStr str

text \<open>Truth value of a setting, as \<open>if quote or ...\<close> tests it.\<close>

fun truthy :: "pyval \<Rightarrow> bool" where
  "truthy (PBool b) = b"
| "truthy (PStr s) = (s \<noteq> [])"

text \<open>Text of a setting, as an f-string or \<open>str.format\<close> inserts it.\<close>

fun py_str :: "pyval \<Rightarrow> str" where
  "py_str (PBool b) = (if b then lit ''True'' else lit ''False'')"
| "py_str (PStr s) = s"

text \<open>
  The exceptions the query functions raise: \<open>KeyError\<close> (with the missing key) from a
  failed subscript \<open>d[k]\<close>, \<open>ValueError\<close> (with its message) from the explicit \<open>raise\<close>.
\<close>

datatype error = KeyError str | ValueError str

definition and_then :: "error + 'a \<Rightarrow> ('a \<Rightarrow> error + 'b) \<Rightarrow> error + 'b" where
  "and_then m f = (case m of Inl e \<Rightarrow> Inl e | Inr x \<Rightarrow> f x)"

text \<open>\<open>d[k]\<close> and \<open>d.get(k, default)\<close>.\<close>

definition getitem :: "(str, 'v) dict \<Rightarrow> str \<Rightarrow> error + 'v" where
  "getitem d k = (case map_of d k of None \<Rightarrow> Inl (KeyError k) | Some v \<Rightarrow> Inr v)"

definition dict_get :: "(str, 'v) dict \<Rightarrow> str \<Rightarrow> 'v \<Rightarrow> 'v" where
  "dict_get d k dflt = (case map_of d k of None \<Rightarrow> dflt | Some v \<Rightarrow> v)"

type_synonym terms_map = "(str, str_set) dict"
type_synonym logic_map = "(str, (str, pyval) dict) dict"

section \<open>String primitives\<close>

text \<open>
  \<open>str.isspace\<close> for one code point: the whitespace characters of Unicode as CPython
  knows them, which \<open>str.strip()\<close> removes at both ends.
\<close>

definition isspace :: "nat \<Rightarrow> bool" where
  "isspace c \<longleftrightarrow>
     (9 \<le> c \<and> c \<le> 13) \<or> (28 \<le> c \<and> c \<le> 32) \<or> c = 133 \<or> c = 160 \<or> c = 5760 \<or>
     (8192 \<le> c \<and> c \<le> 8202) \<or> c = 8232 \<or> c = 8233 \<or> c = 8239 \<or> c = 8287 \<or> c = 12288"

definition strip :: "str \<Rightarrow> str" where
  "strip s = rev (dropWhile isspace (rev (dropWhile isspace s)))"

text \<open>\<open>sep.join(parts)\<close>.\<close>

fun str_join :: "str \<Rightarrow> str list \<Rightarrow> str" where
  "str_join sep [] = []"
| "str_join sep [x] = x"
| "str_join sep (x # y # ys) = x @ sep @ str_join sep (y # ys)"

section \<open>Term formatter\<close>

text \<open>
  \<^verbatim>\<open>
  def clean_term(term, quote):
      if not term: return ""
      term = term.strip()
      if quote or " " in term: return f'"{term}"'
      return term
  \<close>
  The code point 34 is the double quote, 32 the space.
\<close>

definition clean_term :: "str \<Rightarrow> bool \<Rightarrow> str" where
  "clean_term trm quote =
     (if trm = [] then []
      else let stripped = strip trm in
        if quote \<or> 32 \<in> set stripped then [34] @ stripped @ [34] else stripped)"

text \<open>
  \<^verbatim>\<open>
  def format_group(terms, quote, internal_operator="OR"):
      formatted = [clean_term(term, quote) for term in sorted(terms) if term]
      return f"({' {} '.format(internal_operator).join(formatted)})" if formatted else ""
  \<close>
\<close>

definition format_group :: "str_set \<Rightarrow> bool \<Rightarrow> str \<Rightarrow> str" where
  "format_group terms quote internal_operator =
     (let formatted = [clean_term trm quote. trm \<leftarrow> sort terms, trm \<noteq> []]
      in if formatted \<noteq> []
         then lit ''('' @ str_join (lit '' '' @ internal_operator @ lit '' '') formatted @ lit '')''
         else [])"

section \<open>Query assembler\<close>

text \<open>
  \<^verbatim>\<open>[(group, group_terms[group]) for group in group_terms if group_terms[group]]\<close>:
  the keys in order, each looked up again (a key of the dict is always found).
\<close>

definition group_items :: "terms_map \<Rightarrow> (str \<times> str_set) list" where
  "group_items group_terms =
     concat (map (\<lambda>g. case map_of group_terms g of
                             None \<Rightarrow> []
                           | Some terms \<Rightarrow> if terms \<noteq> [] then [(g, terms)] else [])
                 (map fst group_terms))"

text \<open>
  The loop of \<open>build_query\<close> over \<open>enumerate(group_items)\<close>; \<open>i < len(group_items) - 1\<close>
  holds exactly when items remain after the current one.  A failed subscript leaves the
  loop at once with its \<open>KeyError\<close>.
\<close>

fun query_parts :: "(str \<times> str_set) list \<Rightarrow> logic_map \<Rightarrow> error + str list" where
  "query_parts [] group_logic = Inr []"
| "query_parts ((g, terms) # rest) group_logic =
     and_then (getitem group_logic g) (\<lambda>lg.
     and_then (getitem lg (lit ''quote'')) (\<lambda>quote.
       let internal_op = dict_get lg (lit ''internal_operator'') (PStr (lit ''OR''));
           group_str = format_group terms (truthy quote) (py_str internal_op)
       in and_then (if rest \<noteq> []
                    then and_then (getitem lg (lit ''operator'')) (\<lambda>outer_op.
                           Inr (group_str @ lit '' '' @ py_str outer_op))
                    else Inr group_str) (\<lambda>part.
          and_then (query_parts rest group_logic) (\<lambda>parts. Inr (part # parts)))))"

definition build_query :: "terms_map \<Rightarrow> logic_map \<Rightarrow> error + str" where
  "build_query group_terms group_logic =
     and_then (query_parts (group_items group_terms) group_logic) (\<lambda>parts.
       Inr (str_join (lit '' '') parts))"

text \<open>
  \<^verbatim>\<open>[(g, group_terms[g]) for g in group_terms if g != main_group and group_terms[g]]\<close>
\<close>

definition static_groups :: "terms_map \<Rightarrow> str \<Rightarrow> (str \<times> str_set) list" where
  "static_groups group_terms main_group =
     concat (map (\<lambda>g. case map_of group_terms g of
                         None \<Rightarrow> []
                       | Some terms \<Rightarrow> if g \<noteq> main_group \<and> terms \<noteq> [] then [(g, terms)] else [])
                 (map fst group_terms))"

text \<open>The inner loop of \<open>build_queries_by_main_group\<close> over the static groups.\<close>

fun static_parts :: "(str \<times> str_set) list \<Rightarrow> logic_map \<Rightarrow> error + str list" where
  "static_parts [] group_logic = Inr []"
| "static_parts ((g, terms) # rest) group_logic =
     and_then (getitem group_logic g) (\<lambda>lg.
     and_then (getitem lg (lit ''quote'')) (\<lambda>quote.
       let internal_op = dict_get lg (lit ''internal_operator'') (PStr (lit ''OR''));
           group_str = format_group terms (truthy quote) (py_str internal_op)
       in and_then (getitem lg (lit ''operator'')) (\<lambda>op.
          and_then (static_parts rest group_logic) (\<lambda>parts.
            Inr ((group_str @ lit '' '' @ py_str op) # parts)))))"

text \<open>The body of the outer loop: the query for one value of the main group.\<close>

definition query_for_value ::
  "(str \<times> str_set) list \<Rightarrow> logic_map \<Rightarrow> str \<Rightarrow> str \<Rightarrow> error + str" where
  "query_for_value static group_logic main_group val =
     and_then (static_parts static group_logic) (\<lambda>parts.
     and_then (getitem group_logic main_group) (\<lambda>lg.
     and_then (getitem lg (lit ''quote'')) (\<lambda>quote.
       let internal_op = dict_get lg (lit ''internal_operator'') (PStr (lit ''OR''));
           main_str = format_group [val] (truthy quote) (py_str internal_op)
       in Inr (str_join (lit '' '') (parts @ [main_str])))))"

text \<open>The outer loop over \<open>main_values\<close>.\<close>

fun queries_loop ::
  "str list \<Rightarrow> (str \<times> str_set) list \<Rightarrow> logic_map \<Rightarrow> str \<Rightarrow> error + (str \<times> str) list" where
  "queries_loop [] static group_logic main_group = Inr []"
| "queries_loop (val # vals) static group_logic main_group =
     and_then (query_for_value static group_logic main_group val) (\<lambda>query.
     and_then (queries_loop vals static group_logic main_group) (\<lambda>queries.
       Inr ((val, query) # queries)))"

text \<open>
  \<^verbatim>\<open>
  if main_group not in group_terms:
      raise ValueError(f"Main group '{main_group}' not found in group terms.")
  \<close>
  The code point 39 is the apostrophe.  Past the check, \<open>group_terms[main_group]\<close> is found.
\<close>

definition build_queries_by_main_group ::
  "terms_map \<Rightarrow> logic_map \<Rightarrow> str \<Rightarrow> error + (str \<times> str) list" where
  "build_queries_by_main_group group_terms group_logic main_group =
     (case map_of group_terms main_group of
        None \<Rightarrow> Inl (ValueError (lit ''Main group '' @ [39] @ main_group @ [39]
                                   @ lit '' not found in group terms.''))
      | Some main_terms \<Rightarrow>
          queries_loop (sort main_terms) (static_groups group_terms main_group)
            group_logic main_group)"

section \<open>The settings of a group, as the assembler reads them\<close>

text \<open>
  The claims speak of a group's quote setting, internal operator, operator and formatted
  clause.  The functions below read them off the logic mapping exactly as the loops do:
  the truth value of \<open>group_logic[g]["quote"]\<close>, the text of
  \<open>group_logic[g].get("internal_operator", "OR")\<close> and of \<open>group_logic[g]["operator"]\<close>.
  Where the source would raise \<open>KeyError\<close> they return a fixed value; \<open>has_quote\<close> and
  \<open>has_operator\<close> say that the subscripts succeed.  They serve to state results of
  calls that returned, and are not part of the program.
\<close>

definition quote_of :: "logic_map \<Rightarrow> str \<Rightarrow> bool" where
  "quote_of group_logic g =
     (case map_of group_logic g of
        None \<Rightarrow> False
      | Some lg \<Rightarrow> (case map_of lg (lit ''quote'') of None \<Rightarrow> False | Some q \<Rightarrow> truthy q))"

definition internal_operator_of :: "logic_map \<Rightarrow> str \<Rightarrow> str" where
  "internal_operator_of group_logic g =
     (case map_of group_logic g of
        None \<Rightarrow> lit ''OR''
      | Some lg \<Rightarrow> py_str (dict_get lg (lit ''internal_operator'') (PStr (lit ''OR''))))"

definition operator_of :: "logic_map \<Rightarrow> str \<Rightarrow> str" where
  "operator_of group_logic g =
     (case map_of group_logic g of
        None \<Rightarrow> []
      | Some lg \<Rightarrow> (case map_of lg (lit ''operator'') of None \<Rightarrow> [] | Some v \<Rightarrow> py_str v))"

definition clause_of :: "logic_map \<Rightarrow> str \<Rightarrow> str_set \<Rightarrow> str" where
  "clause_of group_logic g terms =
     format_group terms (quote_of group_logic g) (internal_operator_of group_logic g)"

definition has_quote :: "logic_map \<Rightarrow> str \<Rightarrow> bool" where
  "has_quote group_logic g =
     (case map_of group_logic g of
        None \<Rightarrow> False
      | Some lg \<Rightarrow> map_of lg (lit ''quote'') \<noteq> None)"

definition has_operator :: "logic_map \<Rightarrow> str \<Rightarrow> bool" where
  "has_operator group_logic g =
     (case map_of group_logic g of
        None \<Rightarrow> False
      | Some lg \<Rightarrow> map_of lg (lit ''operator'') \<noteq> None)"

text \<open>
  Two lists that enumerate one and the same Python set: the same elements, each once, in
  any two iteration orders.
\<close>

definition same_set :: "str_set \<Rightarrow> str_set \<Rightarrow> bool" where
  "same_set xs ys \<longleftrightarrow> distinct xs \<and> distinct ys \<and> set xs = set ys"

section \<open>Evaluation and basic facts\<close>

lemma lit_simps: "lit [] = []" "lit (c # cs) = of_char c # lit cs"
  by (simp_all add: lit_def)

lemma and_then_simps: "and_then (Inl e) f = Inl e" "and_then (Inr x) f = f x"
  by (simp_all add: and_then_def)

lemmas eval_simps =
  lit_simps and_then_simps getitem_def dict_get_def Let_def
  isspace_def strip_def clean_term_def format_group_def
  group_items_def build_query_def
  static_groups_def query_for_value_def build_queries_by_main_group_def

lemmas settings_simps =
  quote_of_def internal_operator_of_def operator_of_def clause_of_def
  has_quote_def has_operator_def

lemma getitem_Inr_iff: "getitem d k = Inr v \<longleftrightarrow> map_of d k = Some v"
  by (simp add: getitem_def split: option.splits)

lemma getitem_Inl_iff: "getitem d k = Inl e \<longleftrightarrow> map_of d k = None \<and> e = KeyError k"
  by (auto simp: getitem_def split: option.splits)

lemma and_then_Inr_iff: "and_then m f = Inr y \<longleftrightarrow> (\<exists>x. m = Inr x \<and> f x = Inr y)"
  by (cases m) (simp_all add: and_then_def)

lemma and_then_Inl_iff:
  "and_then m f = Inl e \<longleftrightarrow> m = Inl e \<or> (\<exists>x. m = Inr x \<and> f x = Inl e)"
  by (cases m) (simp_all add: and_then_def)

subsection \<open>Stripping whitespace\<close>

lemma strip_all_space:
  assumes "list_all isspace s"
  shows "strip s = []"
proof -
  have d: "dropWhile isspace s = []" using assms by (simp add: list_all_iff)
  show ?thesis unfolding strip_def d by simp
qed

lemma last_dropWhile_nonempty:
  assumes "dropWhile P xs \<noteq> []"
  shows "last (dropWhile P xs) = last xs"
proof -
  have "last (takeWhile P xs @ dropWhile P xs) = last (dropWhile P xs)"
    using assms by (rule last_appendR)
  then show ?thesis by simp
qed

lemma strip_eq_Nil_iff: "strip s = [] \<longleftrightarrow> list_all isspace s"
proof
  assume "strip s = []"
  then have a: "\<forall>x\<in>set (dropWhile isspace s). isspace x"
    by (simp add: strip_def)
  have "dropWhile isspace s = []"
  proof (rule ccontr)
    assume ne: "dropWhile isspace s \<noteq> []"
    then have "\<not> isspace (hd (dropWhile isspace s))" by (rule hd_dropWhile)
    moreover have "hd (dropWhile isspace s) \<in> set (dropWhile isspace s)"
      using ne by (rule hd_in_set)
    ultimately show False using a by blast
  qed
  then show "list_all isspace s" by (simp add: list_all_iff)
next
  assume "list_all isspace s"
  then show "strip s = []" by (rule strip_all_space)
qed

lemma strip_trimmed:
  assumes "s \<noteq> []" "\<not> isspace (hd s)" "\<not> isspace (last s)"
  shows "strip s = s"
proof -
  have a: "dropWhile isspace s = s"
    using assms by (simp add: dropWhile_eq_self_iff)
  have "dropWhile isspace (rev s) = rev s"
    using assms by (simp add: dropWhile_eq_self_iff hd_rev)
  with a show ?thesis by (simp add: strip_def)
qed

lemma strip_decomp:
  "\<exists>pre suf. s = pre @ strip s @ suf \<and> list_all isspace pre \<and> list_all isspace suf"
proof -
  let ?a = "takeWhile isspace s" and ?m = "dropWhile isspace s"
  let ?b = "takeWhile isspace (rev ?m)"
  have 1: "s = ?a @ ?m" by simp
  have "rev ?m = ?b @ dropWhile isspace (rev ?m)" by simp
  then have "?m = rev (dropWhile isspace (rev ?m)) @ rev ?b"
    by (metis rev_append rev_rev_ident)
  then have "s = ?a @ strip s @ rev ?b" using 1 by (simp add: strip_def)
  moreover have "list_all isspace ?a" "list_all isspace (rev ?b)"
    by (auto simp: list_all_iff dest: set_takeWhileD)
  ultimately show ?thesis by blast
qed

lemma strip_ends:
  "strip s \<noteq> [] \<Longrightarrow> \<not> isspace (hd (strip s)) \<and> \<not> isspace (last (strip s))"
proof -
  let ?m = "dropWhile isspace s"
  let ?r = "dropWhile isspace (rev ?m)"
  assume ne: "strip s \<noteq> []"
  then have r: "?r \<noteq> []" by (simp add: strip_def)
  then have m: "?m \<noteq> []" by (auto dest: set_dropWhileD)
  have "last (strip s) = hd ?r" using r by (simp add: strip_def last_rev)
  moreover have "\<not> isspace (hd ?r)" using r by (rule hd_dropWhile)
  moreover have "hd (strip s) = last ?r" using r by (simp add: strip_def hd_rev)
  moreover have "last ?r = last (rev ?m)" using r by (rule last_dropWhile_nonempty)
  moreover have "last (rev ?m) = hd ?m" using m by (simp add: last_rev)
  moreover have "\<not> isspace (hd ?m)" using m by (rule hd_dropWhile)
  ultimately show ?thesis by simp
qed

subsection \<open>Sorting the elements of a set\<close>

lemma sort_distinct_eq:
  assumes "distinct xs"
  shows "sort xs = sorted_list_of_set (set xs)"
  using assms by (simp add: sorted_list_of_set_sort_remdups distinct_remdups_id)

lemma sort_then_filter:
  assumes "distinct terms"
  shows "filter (\<lambda>t. t \<noteq> []) (sort terms) = sorted_list_of_set (set terms - {[]})"
proof -
  have "filter (\<lambda>t. t \<noteq> []) (sort terms) = sort (filter (\<lambda>t. t \<noteq> []) terms)"
    by (rule filter_sort)
  also have "\<dots> = sorted_list_of_set (set (filter (\<lambda>t. t \<noteq> []) terms))"
    using assms by (intro sort_distinct_eq) simp
  also have "set (filter (\<lambda>t. t \<noteq> []) terms) = set terms - {[]}" by auto
  finally show ?thesis .
qed

lemma format_group_formatted:
  "[clean_term trm quote. trm \<leftarrow> xs, trm \<noteq> []] = map (\<lambda>t. clean_term t quote) (filter (\<lambda>t. t \<noteq> []) xs)"
  by (induction xs) simp_all

lemma format_group_singleton:
  "format_group [x] quote op = (if x = [] then [] else lit ''('' @ clean_term x quote @ lit '')'')"
  by (simp add: format_group_def)

lemma same_set_Nil: "same_set xs ys \<Longrightarrow> xs = [] \<longleftrightarrow> ys = []"
  by (auto simp: same_set_def)

lemma format_group_same_set:
  assumes "same_set xs ys"
  shows "format_group xs quote op = format_group ys quote op"
proof -
  have "sort xs = sort ys" using assms by (simp add: same_set_def sort_distinct_eq)
  then show ?thesis by (simp add: format_group_def)
qed

subsection \<open>The comprehensions over the keys of the terms mapping\<close>

lemma keys_lookup_filter:
  assumes "\<forall>(g, t)\<in>set ys. map_of xs g = Some t"
  shows "concat (map (\<lambda>g. case map_of xs g of None \<Rightarrow> []
                            | Some t \<Rightarrow> if P g t then [(g, t)] else []) (map fst ys))
         = filter (\<lambda>(g, t). P g t) ys"
  using assms by (induction ys) auto

lemma group_items_filter:
  assumes "distinct (map fst group_terms)"
  shows "group_items group_terms = filter (\<lambda>(g, terms). terms \<noteq> []) group_terms"
proof -
  have "\<forall>(g, t)\<in>set group_terms. map_of group_terms g = Some t"
    using assms by auto
  then show ?thesis
    unfolding group_items_def by (rule keys_lookup_filter)
qed

lemma static_groups_filter:
  assumes "distinct (map fst group_terms)"
  shows "static_groups group_terms main_group =
         filter (\<lambda>(g, terms). g \<noteq> main_group \<and> terms \<noteq> []) group_terms"
proof -
  have "\<forall>(g, t)\<in>set group_terms. map_of group_terms g = Some t"
    using assms by auto
  then show ?thesis
    unfolding static_groups_def by (rule keys_lookup_filter)
qed

lemma in_group_items:
  assumes "map_of group_terms g = Some terms" "terms \<noteq> []"
  shows "(g, terms) \<in> set (group_items group_terms)"
proof -
  let ?F = "\<lambda>g. case map_of group_terms g of
                   None \<Rightarrow> []
                 | Some terms \<Rightarrow> if terms \<noteq> [] then [(g, terms)] else []"
  from assms(1) have "g \<in> set (map fst group_terms)"
    by (metis map_of_eq_None_iff option.distinct(1) set_map)
  moreover have "(g, terms) \<in> set (?F g)" using assms by simp
  ultimately have "(g, terms) \<in> set (concat (map ?F (map fst group_terms)))"
    unfolding set_concat set_map by blast
  then show ?thesis by (simp only: group_items_def)
qed

lemma group_items_mem:
  assumes "(k, terms) \<in> set (group_items group_terms)"
  shows "map_of group_terms k = Some terms \<and> terms \<noteq> []"
  using assms unfolding group_items_def
  by (auto split: option.splits if_splits)

lemma group_items_all_empty:
  assumes "\<forall>(k, terms)\<in>set group_terms. terms = []"
  shows "group_items group_terms = []"
proof -
  have "\<And>k terms. map_of group_terms k = Some terms \<Longrightarrow> terms = []"
    using assms by (auto dest: map_of_SomeD)
  then show ?thesis
    unfolding group_items_def by (auto split: option.splits)
qed

lemma map_of_remove:
  "map_of (filter (\<lambda>(k, v). k \<noteq> g) xs) k = (if k = g then None else map_of xs k)"
  by (induction xs) auto

lemma keys_remove:
  "map fst (filter (\<lambda>(k, v). k \<noteq> g) xs) = filter (\<lambda>k. k \<noteq> g) (map fst xs)"
  by (induction xs) auto

lemma concat_map_skip:
  assumes "F g = []" and "\<And>k. k \<noteq> g \<Longrightarrow> F' k = F k"
  shows "concat (map F' (filter (\<lambda>k. k \<noteq> g) ks)) = concat (map F ks)"
  using assms by (induction ks) simp_all

lemma group_items_remove:
  assumes "map_of group_terms g = Some []"
  shows "group_items (filter (\<lambda>(k, v). k \<noteq> g) group_terms) = group_items group_terms"
  unfolding group_items_def keys_remove
  by (rule concat_map_skip) (simp_all add: assms map_of_remove)

lemma same_terms_keys:
  "list_all2 (\<lambda>(g, xs) (g', ys). g = g' \<and> same_set xs ys) gt gt' \<Longrightarrow> map fst gt = map fst gt'"
  by (induction rule: list_all2_induct) auto

lemma same_terms_lookup:
  "list_all2 (\<lambda>(g, xs) (g', ys). g = g' \<and> same_set xs ys) gt gt' \<Longrightarrow>
   rel_option same_set (map_of gt k) (map_of gt' k)"
  by (induction rule: list_all2_induct) auto

lemma list_all2_concat_map:
  assumes "\<And>k. list_all2 R (F k) (F' k)"
  shows "list_all2 R (concat (map F ks)) (concat (map F' ks))"
  by (induction ks) (simp_all add: assms list_all2_appendI)

lemma same_terms_group_items:
  assumes "list_all2 (\<lambda>(g, xs) (g', ys). g = g' \<and> same_set xs ys) gt gt'"
  shows "list_all2 (\<lambda>(g, xs) (g', ys). g = g' \<and> same_set xs ys) (group_items gt) (group_items gt')"
proof -
  have "list_all2 (\<lambda>(g, xs) (g', ys). g = g' \<and> same_set xs ys)
          (case map_of gt k of None \<Rightarrow> [] | Some terms \<Rightarrow> if terms \<noteq> [] then [(k, terms)] else [])
          (case map_of gt' k of None \<Rightarrow> [] | Some terms \<Rightarrow> if terms \<noteq> [] then [(k, terms)] else [])"
    for k
    using same_terms_lookup [OF assms, of k]
    by (cases "map_of gt k"; cases "map_of gt' k") (auto dest: same_set_Nil)
  then show ?thesis
    unfolding group_items_def same_terms_keys [OF assms]
    by (rule list_all2_concat_map)
qed

subsection \<open>The loop of the combined query\<close>

lemma query_parts_error:
  "query_parts items group_logic = Inl e \<Longrightarrow> \<exists>k. e = KeyError k"
proof (induction items)
  case Nil
  then show ?case by simp
next
  case (Cons item items)
  obtain g terms where item: "item = (g, terms)" by (cases item)
  from Cons.prems Cons.IH show ?case
    unfolding item
    by (auto simp: and_then_Inl_iff getitem_Inl_iff Let_def split: if_splits)
qed

lemma query_parts_missing:
  "(g, terms) \<in> set items \<Longrightarrow> map_of group_logic g = None \<Longrightarrow>
   \<exists>e. query_parts items group_logic = Inl e"
proof (induction items)
  case Nil
  then show ?case by simp
next
  case (Cons item items)
  obtain g' terms' where item: "item = (g', terms')" by (cases item)
  show ?case
  proof (cases "query_parts (item # items) group_logic")
    case (Inl e)
    then show ?thesis by simp
  next
    case (Inr parts)
    then obtain lg rest_parts where
      lg: "map_of group_logic g' = Some lg" and
      rest: "query_parts items group_logic = Inr rest_parts"
      unfolding item by (auto simp: and_then_Inr_iff getitem_Inr_iff Let_def)
    from lg Cons.prems have "(g, terms) \<in> set items" by (auto simp: item)
    from Cons.IH [OF this Cons.prems(2)] rest show ?thesis by simp
  qed
qed

lemma getitem_remove:
  "k \<noteq> g \<Longrightarrow> getitem (filter (\<lambda>(k, v). k \<noteq> g) d) k = getitem d k"
  by (simp add: getitem_def map_of_remove)

lemma query_parts_remove:
  "g \<notin> fst ` set items \<Longrightarrow>
   query_parts items (filter (\<lambda>(k, v). k \<noteq> g) group_logic) = query_parts items group_logic"
proof (induction items)
  case Nil
  then show ?case by simp
next
  case (Cons item items)
  obtain k terms where item: "item = (k, terms)" by (cases item)
  from Cons.prems have "k \<noteq> g" "g \<notin> fst ` set items" by (auto simp: item)
  with Cons.IH show ?case
    by (simp add: item getitem_remove)
qed

lemma query_parts_single:
  assumes "has_quote group_logic g"
  shows "query_parts [(g, terms)] group_logic = Inr [clause_of group_logic g terms]"
proof -
  from assms obtain lg q where
    lg: "map_of group_logic g = Some lg" and q: "map_of lg (lit ''quote'') = Some q"
    by (auto simp: has_quote_def split: option.splits)
  then have "getitem group_logic g = Inr lg" "getitem lg (lit ''quote'') = Inr q"
    by (simp_all add: getitem_Inr_iff)
  with lg q show ?thesis
    by (simp add: and_then_simps Let_def clause_of_def quote_of_def internal_operator_of_def)
qed

lemma query_parts_same_terms:
  "list_all2 (\<lambda>(g, xs) (g', ys). g = g' \<and> same_set xs ys) items items' \<Longrightarrow>
   query_parts items group_logic = query_parts items' group_logic"
proof (induction rule: list_all2_induct)
  case Nil
  then show ?case by simp
next
  case (Cons item rest item' rest')
  obtain g xs where item: "item = (g, xs)" by (cases item)
  obtain g' ys where item': "item' = (g', ys)" by (cases item')
  from Cons.hyps(1) have g: "g' = g" and s: "same_set xs ys" by (simp_all add: item item')
  from Cons.hyps(2) have r: "rest = [] \<longleftrightarrow> rest' = []" by (auto simp: list_all2_Nil list_all2_Nil2)
  show ?case
    unfolding item item' g query_parts.simps Cons.IH format_group_same_set [OF s] r ..
qed

subsection \<open>The loops of the queries by main group\<close>

lemma static_parts_Inr:
  "static_parts items group_logic = Inr parts \<Longrightarrow>
   parts = map (\<lambda>(g, terms). clause_of group_logic g terms @ lit '' '' @ operator_of group_logic g) items"
proof (induction items arbitrary: parts)
  case Nil
  then show ?case by simp
next
  case (Cons item items)
  obtain g terms where item: "item = (g, terms)" by (cases item)
  from Cons.prems obtain lg q op rest_parts where
    lg: "map_of group_logic g = Some lg" and q: "map_of lg (lit ''quote'') = Some q" and
    op: "map_of lg (lit ''operator'') = Some op" and
    rest: "static_parts items group_logic = Inr rest_parts" and
    parts: "parts = (format_group terms (truthy q)
                       (py_str (dict_get lg (lit ''internal_operator'') (PStr (lit ''OR''))))
                     @ lit '' '' @ py_str op) # rest_parts"
    unfolding item by (auto simp: and_then_Inr_iff getitem_Inr_iff Let_def)
  from Cons.IH [OF rest] lg q op parts show ?case
    by (simp add: item clause_of_def quote_of_def internal_operator_of_def operator_of_def)
qed

lemma static_parts_ok:
  "\<forall>(g, terms)\<in>set items. has_quote group_logic g \<and> has_operator group_logic g \<Longrightarrow>
   \<exists>parts. static_parts items group_logic = Inr parts"
proof (induction items)
  case Nil
  then show ?case by simp
next
  case (Cons item items)
  obtain g terms where item: "item = (g, terms)" by (cases item)
  from Cons.prems obtain lg q op where
    "getitem group_logic g = Inr lg" "getitem lg (lit ''quote'') = Inr q"
    "getitem lg (lit ''operator'') = Inr op"
    by (auto simp: item has_quote_def has_operator_def getitem_Inr_iff split: option.splits)
  moreover from Cons obtain rest_parts where "static_parts items group_logic = Inr rest_parts"
    by auto
  ultimately show ?case
    by (simp add: item and_then_simps Let_def)
qed

lemma query_for_value_Inr:
  assumes "query_for_value static group_logic main_group val = Inr query"
  shows "query = str_join (lit '' '')
           (map (\<lambda>(g, terms). clause_of group_logic g terms @ lit '' '' @ operator_of group_logic g) static
            @ [clause_of group_logic main_group [val]])"
proof -
  from assms obtain parts lg q where
    parts: "static_parts static group_logic = Inr parts" and
    lg: "map_of group_logic main_group = Some lg" and q: "map_of lg (lit ''quote'') = Some q" and
    query: "query = str_join (lit '' '') (parts @ [format_group [val] (truthy q)
                       (py_str (dict_get lg (lit ''internal_operator'') (PStr (lit ''OR''))))])"
    by (auto simp: query_for_value_def and_then_Inr_iff getitem_Inr_iff Let_def)
  from static_parts_Inr [OF parts] lg q query show ?thesis
    by (simp add: clause_of_def quote_of_def internal_operator_of_def)
qed

lemma query_for_value_ok:
  assumes "\<forall>(g, terms)\<in>set static. has_quote group_logic g \<and> has_operator group_logic g"
    and "has_quote group_logic main_group"
  shows "\<exists>query. query_for_value static group_logic main_group val = Inr query"
proof -
  from static_parts_ok [OF assms(1)] obtain parts where
    "static_parts static group_logic = Inr parts" ..
  moreover from assms(2) obtain lg q where
    "getitem group_logic main_group = Inr lg" "getitem lg (lit ''quote'') = Inr q"
    by (auto simp: has_quote_def getitem_Inr_iff split: option.splits)
  ultimately show ?thesis
    by (simp add: query_for_value_def and_then_simps Let_def)
qed

lemma queries_loop_Inr:
  "queries_loop vals static group_logic main_group = Inr queries \<Longrightarrow>
   map fst queries = vals \<and>
   (\<forall>(v, q)\<in>set queries. query_for_value static group_logic main_group v = Inr q)"
proof (induction vals arbitrary: queries)
  case Nil
  then show ?case by simp
next
  case (Cons val vals)
  from Cons.prems obtain query rest where
    "query_for_value static group_logic main_group val = Inr query"
    "queries_loop vals static group_logic main_group = Inr rest"
    "queries = (val, query) # rest"
    by (auto simp: and_then_Inr_iff)
  with Cons.IH [of rest] show ?case by simp
qed

lemma queries_loop_ok:
  assumes "\<forall>(g, terms)\<in>set static. has_quote group_logic g \<and> has_operator group_logic g"
    and "has_quote group_logic main_group"
  shows "\<exists>queries. queries_loop vals static group_logic main_group = Inr queries"
proof (induction vals)
  case Nil
  then show ?case by simp
next
  case (Cons val vals)
  from query_for_value_ok [OF assms] obtain query where
    "query_for_value static group_logic main_group val = Inr query" ..
  moreover from Cons obtain rest where
    "queries_loop vals static group_logic main_group = Inr rest" ..
  ultimately show ?case by (simp add: and_then_simps)
qed

lemma static_parts_Inr_settings:
  "static_parts items group_logic = Inr parts \<Longrightarrow> (g, terms) \<in> set items \<Longrightarrow>
   has_quote group_logic g \<and> has_operator group_logic g"
proof (induction items arbitrary: parts)
  case Nil
  then show ?case by simp
next
  case (Cons item items)
  obtain g' terms' where item: "item = (g', terms')" by (cases item)
  from Cons.prems(1) obtain lg q op rest_parts where
    lg: "map_of group_logic g' = Some lg" and q: "map_of lg (lit ''quote'') = Some q" and
    op: "map_of lg (lit ''operator'') = Some op" and
    rest: "static_parts items group_logic = Inr rest_parts"
    unfolding item by (auto simp: and_then_Inr_iff getitem_Inr_iff Let_def)
  show ?case
  proof (cases "(g, terms) = item")
    case True
    with lg q op show ?thesis by (simp add: item has_quote_def has_operator_def)
  next
    case False
    with Cons.prems(2) have "(g, terms) \<in> set items" by simp
    with Cons.IH [OF rest] show ?thesis by simp
  qed
qed

lemma query_for_value_Inr_settings:
  assumes "query_for_value static group_logic main_group val = Inr query"
  shows "has_quote group_logic main_group \<and>
         (\<forall>(g, terms)\<in>set static. has_quote group_logic g \<and> has_operator group_logic g)"
proof -
  from assms obtain parts lg q where
    parts: "static_parts static group_logic = Inr parts" and
    lg: "map_of group_logic main_group = Some lg" and q: "map_of lg (lit ''quote'') = Some q"
    by (auto simp: query_for_value_def and_then_Inr_iff getitem_Inr_iff Let_def)
  from lg q have "has_quote group_logic main_group" by (simp add: has_quote_def)
  with static_parts_Inr_settings [OF parts] show ?thesis by auto
qed

section \<open>The term formatter: \<open>clean_term\<close>\<close>

text \<open>
  Claim C2 as the specification states it: \<open>clean_term\<close> returns the empty string for
  every term that is empty or consists only of whitespace, and otherwise quotes or returns
  the term itself.  It fails on terms with surrounding whitespace: the emptiness test
  comes before \<open>strip\<close>, so a single space with \<open>quote = True\<close> gives the two
  characters \<open>""\<close>; and the test for a space reads the stripped term, so \<open>" a"\<close> with
  \<open>quote = False\<close> gives \<open>a\<close>, neither quoted nor unchanged.
\<close>

theorem clean_term_blank_quoted_counterexample:
  "list_all isspace [32] \<and> clean_term [32] True = [34, 34] \<and> clean_term [32] True \<noteq> [] \<and>
   32 \<in> set (lit '' a'') \<and> clean_term (lit '' a'') False = lit ''a''"
  by (simp add: clean_term_def strip_def isspace_def lit_simps)

text \<open>
  Claim C2, amended: \<open>clean_term\<close> returns the empty string when the term is empty, and
  when it consists only of whitespace and \<open>quote\<close> is false.  For a term that does not
  consist only of whitespace, it works on the term stripped of its leading and trailing
  whitespace (which is not empty): the result is the stripped term in double quotes
  exactly when \<open>quote\<close> is true or the stripped term contains a space, and the stripped
  term otherwise.  A non-empty term that neither starts nor ends with whitespace is
  stripped to itself, so that for it the result is the term in double quotes exactly
  when \<open>quote\<close> is true or the term contains a space, and the term unchanged otherwise.
\<close>

theorem clean_term_contract:
  "(trm = [] \<longrightarrow> clean_term trm quote = []) \<and>
   (list_all isspace trm \<and> \<not> quote \<longrightarrow> clean_term trm quote = []) \<and>
   (\<not> list_all isspace trm \<longrightarrow>
      strip trm \<noteq> [] \<and>
      clean_term trm quote =
        (if quote \<or> 32 \<in> set (strip trm) then [34] @ strip trm @ [34] else strip trm)) \<and>
   (trm \<noteq> [] \<and> \<not> isspace (hd trm) \<and> \<not> isspace (last trm) \<longrightarrow>
      clean_term trm quote = (if quote \<or> 32 \<in> set trm then [34] @ trm @ [34] else trm))"
proof (intro conjI impI)
  show "clean_term trm quote = []" if "trm = []"
    using that by (simp add: clean_term_def)
next
  assume "list_all isspace trm \<and> \<not> quote"
  then show "clean_term trm quote = []"
    by (simp add: clean_term_def strip_all_space)
next
  assume ns: "\<not> list_all isspace trm"
  then show "strip trm \<noteq> []" by (simp add: strip_eq_Nil_iff)
  from ns have "trm \<noteq> []" by auto
  then show "clean_term trm quote =
        (if quote \<or> 32 \<in> set (strip trm) then [34] @ strip trm @ [34] else strip trm)"
    by (simp add: clean_term_def)
next
  assume "trm \<noteq> [] \<and> \<not> isspace (hd trm) \<and> \<not> isspace (last trm)"
  then show "clean_term trm quote = (if quote \<or> 32 \<in> set trm then [34] @ trm @ [34] else trm)"
    by (simp add: clean_term_def strip_trimmed)
qed

theorem clean_term_contract_witness:
  "clean_term [] True = [] \<and> clean_term (lit ''  '') False = [] \<and>
   clean_term (lit '' New York '') False = lit ''\"New York\"'' \<and>
   clean_term (lit ''York'') False = lit ''York'' \<and>
   clean_term (lit ''York'') True = lit ''\"York\"''"
  using clean_term_contract [of "[]" True] clean_term_contract [of "lit ''  ''" False]
   clean_term_contract [of "lit '' New York ''" False] 
   clean_term_contract [of "lit ''York''" False]  clean_term_contract [of "lit ''York''" True]
  by (simp add: lit_simps isspace_def strip_def)

section \<open>The term formatter: \<open>format_group\<close>\<close>

text \<open>
  Claim C6: for every set of terms (in whatever order it iterates), quote flag and
  internal operator, \<open>format_group\<close> keeps the non-empty terms, in ascending
  lexicographic order (the sorted list of the set without the empty string, which does
  not depend on the iteration order), formats each with \<open>clean_term\<close>, joins them with
  space, operator, space, and wraps the result in one pair of parentheses; it returns the
  empty string when no term remains.  A singleton set of a non-empty term gives that
  term, formatted, between parentheses: \<open>{"x"}\<close> gives \<open>(x)\<close>.
\<close>

theorem format_group_contract:
  assumes "distinct terms"
  shows "format_group terms quote internal_operator =
           (let kept = sorted_list_of_set (set terms - {[]})
            in if kept = [] then []
               else lit ''('' @ str_join (lit '' '' @ internal_operator @ lit '' '')
                                   (map (\<lambda>t. clean_term t quote) kept) @ lit '')'') \<and>
         (x \<noteq> [] \<longrightarrow>
            format_group [x] quote internal_operator = lit ''('' @ clean_term x quote @ lit '')'') \<and>
         format_group [lit ''x''] False internal_operator = lit ''(x)''"
proof (intro conjI impI)
  show "format_group terms quote internal_operator =
           (let kept = sorted_list_of_set (set terms - {[]})
            in if kept = [] then []
               else lit ''('' @ str_join (lit '' '' @ internal_operator @ lit '' '')
                                   (map (\<lambda>t. clean_term t quote) kept) @ lit '')'')"
    using sort_then_filter [OF assms]
    by (simp add: format_group_def format_group_formatted Let_def)
next
  assume "x \<noteq> []"
  then show "format_group [x] quote internal_operator = lit ''('' @ clean_term x quote @ lit '')''"
    by (simp add: format_group_singleton)
next
  show "format_group [lit ''x''] False internal_operator = lit ''(x)''"
    by (simp add: format_group_singleton clean_term_def strip_def isspace_def lit_simps)
qed

theorem format_group_contract_witness:
  "distinct [lit ''pear'', [], lit ''apple'', lit ''New York''] \<and>
   format_group [lit ''pear'', [], lit ''apple'', lit ''New York''] False (lit ''AND'')
     = lit ''(\"New York\" AND apple AND pear)''"
proof -
  have h: "distinct [lit ''pear'', [], lit ''apple'', lit ''New York'']" by (simp add: lit_simps)
  have "format_group [lit ''pear'', [], lit ''apple'', lit ''New York''] False (lit ''AND'')
     = lit ''(\"New York\" AND apple AND pear)''"
    by (simp add: eval_simps)
  with format_group_contract [OF h, of False "lit ''AND''" "lit ''x''"] h show ?thesis by blast
qed

section \<open>The combined query\<close>

text \<open>
  Claim C5 as the specification states it: for the terms \<open>{"color": {"red", "blue"},
  "size": {"large"}}\<close> and the logic of the scenario, \<open>build_query\<close> returns
  \<open>(blue OR red) AND "large"\<close>.  It does not: \<open>format_group\<close> wraps every group that is
  not empty in parentheses, a group of one term as well.
\<close>

theorem build_query_example_counterexample:
  "build_query
     [(lit ''color'', [lit ''red'', lit ''blue'']), (lit ''size'', [lit ''large''])]
     [(lit ''color'', [(lit ''quote'', PBool False), (lit ''operator'', PStr (lit ''AND'')),
                       (lit ''internal_operator'', PStr (lit ''OR''))]),
      (lit ''size'', [(lit ''quote'', PBool True), (lit ''operator'', PStr (lit ''AND'')),
                      (lit ''internal_operator'', PStr (lit ''OR''))])]
   \<noteq> Inr (lit ''(blue OR red) AND \"large\"'')"
  by (simp add: eval_simps)

text \<open>
  Claim C5, amended: for these terms, in that group order and for either iteration order
  of the set of colours, and this logic, \<open>build_query\<close> returns exactly
  \<open>(blue OR red) AND ("large")\<close>.
\<close>

theorem build_query_example:
  "build_query
     [(lit ''color'', [lit ''red'', lit ''blue'']), (lit ''size'', [lit ''large''])]
     [(lit ''color'', [(lit ''quote'', PBool False), (lit ''operator'', PStr (lit ''AND'')),
                       (lit ''internal_operator'', PStr (lit ''OR''))]),
      (lit ''size'', [(lit ''quote'', PBool True), (lit ''operator'', PStr (lit ''AND'')),
                      (lit ''internal_operator'', PStr (lit ''OR''))])]
   = Inr (lit ''(blue OR red) AND (\"large\")'') \<and>
   build_query
     [(lit ''color'', [lit ''blue'', lit ''red'']), (lit ''size'', [lit ''large''])]
     [(lit ''color'', [(lit ''quote'', PBool False), (lit ''operator'', PStr (lit ''AND'')),
                       (lit ''internal_operator'', PStr (lit ''OR''))]),
      (lit ''size'', [(lit ''quote'', PBool True), (lit ''operator'', PStr (lit ''AND'')),
                      (lit ''internal_operator'', PStr (lit ''OR''))])]
   = Inr (lit ''(blue OR red) AND (\"large\")'')"
  by (simp add: eval_simps)

text \<open>
  Claim C1: if a group of the terms mapping whose term set is not empty has no entry in
  the logic mapping, \<open>build_query\<close> raises the configuration error (\<open>KeyError\<close> in the
  source): the result is the error, and no query string, partial or not, is returned.
\<close>

theorem build_query_missing_logic:
  assumes "map_of group_terms g = Some terms" and "terms \<noteq> []"
    and "map_of group_logic g = None"
  shows "\<exists>k. build_query group_terms group_logic = Inl (KeyError k)"
proof -
  from in_group_items [OF assms(1,2)] assms(3) obtain e where
    e: "query_parts (group_items group_terms) group_logic = Inl e"
    by (blast dest: query_parts_missing)
  then obtain k where "e = KeyError k" by (blast dest: query_parts_error)
  with e show ?thesis by (simp add: build_query_def and_then_simps)
qed

theorem build_query_missing_logic_witness:
  "map_of [(lit ''color'', [lit ''red'']), (lit ''size'', [lit ''large''])] (lit ''size'')
     = Some [lit ''large''] \<and>
   [lit ''large''] \<noteq> [] \<and>
   map_of [(lit ''color'', [(lit ''quote'', PBool False), (lit ''operator'', PStr (lit ''AND''))])]
     (lit ''size'') = None \<and>
   build_query [(lit ''color'', [lit ''red'']), (lit ''size'', [lit ''large''])]
     [(lit ''color'', [(lit ''quote'', PBool False), (lit ''operator'', PStr (lit ''AND''))])]
   = Inl (KeyError (lit ''size''))"
proof -
  let ?T = "[(lit ''color'', [lit ''red'']), (lit ''size'', [lit ''large''])]"
  let ?L = "[(lit ''color'', [(lit ''quote'', PBool False), (lit ''operator'', PStr (lit ''AND''))])]"
  have h1: "map_of ?T (lit ''size'') = Some [lit ''large'']" by (simp add: lit_simps)
  have h2: "[lit ''large''] \<noteq> []" by simp
  have h3: "map_of ?L (lit ''size'') = None" by (simp add: lit_simps)
  from build_query_missing_logic [OF h1 h2 h3] obtain k where
    "build_query ?T ?L = Inl (KeyError k)" ..
  moreover have "build_query ?T ?L = Inl (KeyError (lit ''size''))"
    by (simp add: eval_simps)
  ultimately show ?thesis using h1 h2 h3 by blast
qed

text \<open>
  Claim C7: a group whose term set is empty contributes nothing to the combined query:
  the result (a query or an error) is the result for the terms mapping without that
  group, with the logic mapping as it is or without that group as well.  If exactly one
  group has terms (and its quote setting can be read), the result is that group's
  formatted clause and no operator; if no group has terms, the result is the empty string.
\<close>

theorem empty_group_skipped:
  "(map_of group_terms g = Some [] \<longrightarrow>
      build_query group_terms group_logic =
        build_query (filter (\<lambda>(k, v). k \<noteq> g) group_terms) group_logic \<and>
      build_query group_terms group_logic =
        build_query (filter (\<lambda>(k, v). k \<noteq> g) group_terms)
                    (filter (\<lambda>(k, v). k \<noteq> g) group_logic)) \<and>
   (distinct (map fst group_terms) \<and>
    filter (\<lambda>(k, terms). terms \<noteq> []) group_terms = [(g, terms)] \<and>
    has_quote group_logic g \<longrightarrow>
      build_query group_terms group_logic = Inr (clause_of group_logic g terms)) \<and>
   ((\<forall>(k, terms)\<in>set group_terms. terms = []) \<longrightarrow>
      build_query group_terms group_logic = Inr [])"
proof (intro conjI impI)
  assume e: "map_of group_terms g = Some []"
  let ?gt = "filter (\<lambda>(k, v). k \<noteq> g) group_terms"
  have items: "group_items ?gt = group_items group_terms"
    using e by (rule group_items_remove)
  then show "build_query group_terms group_logic = build_query ?gt group_logic"
    by (simp add: build_query_def)
  have "g \<notin> fst ` set (group_items group_terms)"
    using e by (auto dest: group_items_mem)
  then have "query_parts (group_items group_terms) (filter (\<lambda>(k, v). k \<noteq> g) group_logic)
             = query_parts (group_items group_terms) group_logic"
    by (rule query_parts_remove)
  with items show "build_query group_terms group_logic =
        build_query ?gt (filter (\<lambda>(k, v). k \<noteq> g) group_logic)"
    by (simp add: build_query_def)
next
  assume a: "distinct (map fst group_terms) \<and>
    filter (\<lambda>(k, terms). terms \<noteq> []) group_terms = [(g, terms)] \<and> has_quote group_logic g"
  then have "group_items group_terms = [(g, terms)]"
    by (simp add: group_items_filter)
  moreover from a have "query_parts [(g, terms)] group_logic = Inr [clause_of group_logic g terms]"
    by (intro query_parts_single) simp
  ultimately show "build_query group_terms group_logic = Inr (clause_of group_logic g terms)"
    by (simp add: build_query_def and_then_simps)
next
  assume "\<forall>(k, terms)\<in>set group_terms. terms = []"
  then have "group_items group_terms = []" by (rule group_items_all_empty)
  then show "build_query group_terms group_logic = Inr []"
    by (simp add: build_query_def and_then_simps)
qed

theorem empty_group_skipped_witness:
  "map_of [(lit ''color'', [lit ''red'']), (lit ''empty'', []), (lit ''size'', [lit ''large''])]
     (lit ''empty'') = Some [] \<and>
   build_query
     [(lit ''color'', [lit ''red'']), (lit ''empty'', []), (lit ''size'', [lit ''large''])]
     [(lit ''color'', [(lit ''quote'', PBool False), (lit ''operator'', PStr (lit ''AND''))]),
      (lit ''size'', [(lit ''quote'', PBool True), (lit ''operator'', PStr (lit ''OR''))])]
   = Inr (lit ''(red) AND (\"large\")'') \<and>
   build_query
     [(lit ''color'', [lit ''red'']), (lit ''size'', [lit ''large''])]
     [(lit ''color'', [(lit ''quote'', PBool False), (lit ''operator'', PStr (lit ''AND''))]),
      (lit ''size'', [(lit ''quote'', PBool True), (lit ''operator'', PStr (lit ''OR''))])]
   = Inr (lit ''(red) AND (\"large\")'') \<and>
   distinct (map fst [(lit ''empty'', []), (lit ''size'', [lit ''large''])]) \<and>
   filter (\<lambda>(k, terms). terms \<noteq> []) [(lit ''empty'', []), (lit ''size'', [lit ''large''])]
     = [(lit ''size'', [lit ''large''])] \<and>
   has_quote [(lit ''size'', [(lit ''quote'', PBool True)])] (lit ''size'') \<and>
   build_query [(lit ''empty'', []), (lit ''size'', [lit ''large''])]
     [(lit ''size'', [(lit ''quote'', PBool True)])] = Inr (lit ''(\"large\")'') \<and>
   build_query [(lit ''empty'', []), (lit ''none'', [])] [] = Inr []"
proof -
  let ?T = "[(lit ''color'', [lit ''red'']), (lit ''empty'', []), (lit ''size'', [lit ''large''])]"
  let ?L = "[(lit ''color'', [(lit ''quote'', PBool False), (lit ''operator'', PStr (lit ''AND''))]),
             (lit ''size'', [(lit ''quote'', PBool True), (lit ''operator'', PStr (lit ''OR''))])]"
  let ?T1 = "[(lit ''empty'', []), (lit ''size'', [lit ''large''])]"
  let ?L1 = "[(lit ''size'', [(lit ''quote'', PBool True)])]"
  have a1: "map_of ?T (lit ''empty'') = Some []" by (simp add: lit_simps)
  have a2: "build_query ?T ?L = Inr (lit ''(red) AND (\"large\")'')" by (simp add: eval_simps)
  have a3: "filter (\<lambda>(k, v). k \<noteq> lit ''empty'') ?T
            = [(lit ''color'', [lit ''red'']), (lit ''size'', [lit ''large''])]"
    by (simp add: lit_simps)
  from empty_group_skipped [of ?T "lit ''empty''" ?L] a1 a2
  have a4: "build_query [(lit ''color'', [lit ''red'']), (lit ''size'', [lit ''large''])] ?L
            = Inr (lit ''(red) AND (\"large\")'')"
    unfolding a3 by simp
  have b1: "distinct (map fst ?T1)" by (simp add: lit_simps)
  have b2: "filter (\<lambda>(k, terms). terms \<noteq> []) ?T1 = [(lit ''size'', [lit ''large''])]"
    by (simp add: lit_simps)
  have b3: "has_quote ?L1 (lit ''size'')" by (simp add: has_quote_def lit_simps)
  have b4: "clause_of ?L1 (lit ''size'') [lit ''large''] = lit ''(\"large\")''"
    by (simp add: eval_simps settings_simps)
  from empty_group_skipped [of ?T1 "lit ''size''" ?L1 "[lit ''large'']"] b1 b2 b3
  have b5: "build_query ?T1 ?L1 = Inr (lit ''(\"large\")'')"
    unfolding b4 by blast
  from empty_group_skipped [of "[(lit ''empty'', []), (lit ''none'', [])]" "[]" "[]" "[]"]
  have c: "build_query [(lit ''empty'', []), (lit ''none'', [])] [] = Inr []"
    by simp
  from a1 a2 a4 b1 b2 b3 b5 c show ?thesis by blast
qed

text \<open>
  Claim C9: the output is a function of the set of terms, not of the order in which the
  set happens to iterate (the only thing that can differ between two invocations with
  the same arguments): two iteration orders of one set give the same \<open>format_group\<close>
  string, and two terms mappings with the same groups in the same order, each group with
  the same set of terms, give the same \<open>build_query\<close> result under one logic mapping.
\<close>

theorem same_input_same_output:
  "(same_set xs ys \<longrightarrow> format_group xs quote op = format_group ys quote op) \<and>
   (list_all2 (\<lambda>(g, xs) (g', ys). g = g' \<and> same_set xs ys) group_terms group_terms' \<longrightarrow>
      build_query group_terms group_logic = build_query group_terms' group_logic)"
proof (intro conjI impI)
  assume "same_set xs ys"
  then show "format_group xs quote op = format_group ys quote op"
    by (rule format_group_same_set)
next
  assume "list_all2 (\<lambda>(g, xs) (g', ys). g = g' \<and> same_set xs ys) group_terms group_terms'"
  then have "query_parts (group_items group_terms) group_logic =
             query_parts (group_items group_terms') group_logic"
    by (intro query_parts_same_terms same_terms_group_items)
  then show "build_query group_terms group_logic = build_query group_terms' group_logic"
    by (simp add: build_query_def)
qed

theorem same_input_same_output_witness:
  "same_set [lit ''red'', lit ''blue''] [lit ''blue'', lit ''red''] \<and>
   format_group [lit ''red'', lit ''blue''] True (lit ''OR'') = lit ''(\"blue\" OR \"red\")'' \<and>
   format_group [lit ''blue'', lit ''red''] True (lit ''OR'') = lit ''(\"blue\" OR \"red\")'' \<and>
   list_all2 (\<lambda>(g, xs) (g', ys). g = g' \<and> same_set xs ys)
     [(lit ''color'', [lit ''red'', lit ''blue'']), (lit ''size'', [lit ''large''])]
     [(lit ''color'', [lit ''blue'', lit ''red'']), (lit ''size'', [lit ''large''])] \<and>
   build_query [(lit ''color'', [lit ''red'', lit ''blue'']), (lit ''size'', [lit ''large''])]
     [(lit ''color'', [(lit ''quote'', PBool False), (lit ''operator'', PStr (lit ''NOT''))]),
      (lit ''size'', [(lit ''quote'', PBool False), (lit ''operator'', PStr (lit ''AND''))])]
   = Inr (lit ''(blue OR red) NOT (large)'') \<and>
   build_query [(lit ''color'', [lit ''blue'', lit ''red'']), (lit ''size'', [lit ''large''])]
     [(lit ''color'', [(lit ''quote'', PBool False), (lit ''operator'', PStr (lit ''NOT''))]),
      (lit ''size'', [(lit ''quote'', PBool False), (lit ''operator'', PStr (lit ''AND''))])]
   = Inr (lit ''(blue OR red) NOT (large)'')"
proof -
  let ?T = "[(lit ''color'', [lit ''red'', lit ''blue'']), (lit ''size'', [lit ''large''])]"
  let ?T' = "[(lit ''color'', [lit ''blue'', lit ''red'']), (lit ''size'', [lit ''large''])]"
  let ?L = "[(lit ''color'', [(lit ''quote'', PBool False), (lit ''operator'', PStr (lit ''NOT''))]),
             (lit ''size'', [(lit ''quote'', PBool False), (lit ''operator'', PStr (lit ''AND''))])]"
  have s: "same_set [lit ''red'', lit ''blue''] [lit ''blue'', lit ''red'']"
    by (auto simp: same_set_def lit_simps)
  have f: "format_group [lit ''red'', lit ''blue''] True (lit ''OR'') = lit ''(\"blue\" OR \"red\")''"
    by (simp add: eval_simps)
  from same_input_same_output [of "[lit ''red'', lit ''blue'']" "[lit ''blue'', lit ''red'']"
      True "lit ''OR''" "[]" "[]" "[]"] s f
  have f': "format_group [lit ''blue'', lit ''red''] True (lit ''OR'') = lit ''(\"blue\" OR \"red\")''"
    by simp
  have t: "list_all2 (\<lambda>(g, xs) (g', ys). g = g' \<and> same_set xs ys) ?T ?T'"
    by (auto simp: same_set_def lit_simps)
  have q: "build_query ?T ?L = Inr (lit ''(blue OR red) NOT (large)'')"
    by (simp add: eval_simps)
  from same_input_same_output [of "[]" "[]" True "[]" ?T ?T' ?L] t q
  have q': "build_query ?T' ?L = Inr (lit ''(blue OR red) NOT (large)'')"
    by simp
  from s f f' t q q' show ?thesis by blast
qed

section \<open>The queries by main group\<close>

text \<open>
  Claim C8: calling \<open>build_queries_by_main_group\<close> with a main group that is not a key
  of the terms mapping raises the error for an invalid main group (\<open>ValueError\<close> in the
  source), whatever the logic mapping is, and the message of the error contains the
  offending name between apostrophes.
\<close>

theorem unknown_main_group_raises:
  assumes "main_group \<notin> fst ` set group_terms"
  shows "build_queries_by_main_group group_terms group_logic main_group =
     Inl (ValueError (lit ''Main group '' @ [39] @ main_group @ [39]
                      @ lit '' not found in group terms.''))"
proof -
  from assms have "map_of group_terms main_group = None"
    by (simp add: map_of_eq_None_iff)
  then show ?thesis by (simp add: build_queries_by_main_group_def)
qed

theorem unknown_main_group_raises_witness:
  "lit ''b'' \<notin> fst ` set [(lit ''a'', [lit ''x''])] \<and>
   build_queries_by_main_group [(lit ''a'', [lit ''x''])] [] (lit ''b'') =
     Inl (ValueError (lit ''Main group 'b' not found in group terms.''))"
  using unknown_main_group_raises [of "lit ''b''" "[(lit ''a'', [lit ''x''])]" "[]"]
  by (simp add: lit_simps)

text \<open>
  Claim C10: when the term set of the main group is empty, \<open>build_queries_by_main_group\<close>
  returns the empty list for every logic mapping: the logic mapping is never read, and no
  error is raised even when no group (the main group included) has a logic entry.
\<close>

theorem empty_main_group_ignores_logic:
  assumes "map_of group_terms main_group = Some []"
  shows "build_queries_by_main_group group_terms group_logic main_group = Inr []"
  using assms by (simp add: build_queries_by_main_group_def)

theorem empty_main_group_ignores_logic_witness:
  "map_of [(lit ''fruit'', []), (lit ''shape'', [lit ''round''])] (lit ''fruit'') = Some [] \<and>
   build_queries_by_main_group [(lit ''fruit'', []), (lit ''shape'', [lit ''round''])] []
     (lit ''fruit'') = Inr []"
  using empty_main_group_ignores_logic
    [of "[(lit ''fruit'', []), (lit ''shape'', [lit ''round''])]" "lit ''fruit''" "[]"]
  by (simp add: lit_simps)

text \<open>
  Claim C4: for a main group that is a key of the terms mapping, every list of queries
  that \<open>build_queries_by_main_group\<close> returns has exactly one pair per distinct value of
  the main group's term set, in ascending lexicographic order of the values (the values
  of the pairs are sorted, pairwise different, and are the elements of the set; there
  are as many pairs as elements).  The call returns such a list whenever the settings it
  reads exist: the quote setting of the main group, and the quote setting and operator
  of every static group.  An empty term set of the main group yields the empty list and
  no error, whatever the logic mapping is.
\<close>

theorem queries_by_main_group_cardinality:
  assumes "map_of group_terms main_group = Some main_terms"
    and "distinct main_terms"
  shows "(main_terms = [] \<longrightarrow>
            build_queries_by_main_group group_terms group_logic main_group = Inr []) \<and>
         (\<forall>queries. build_queries_by_main_group group_terms group_logic main_group = Inr queries \<longrightarrow>
            sorted (map fst queries) \<and> distinct (map fst queries) \<and>
            set (map fst queries) = set main_terms \<and> length queries = card (set main_terms)) \<and>
         (has_quote group_logic main_group \<and>
          (\<forall>(g, terms)\<in>set (static_groups group_terms main_group).
              has_quote group_logic g \<and> has_operator group_logic g) \<longrightarrow>
            (\<exists>queries. build_queries_by_main_group group_terms group_logic main_group = Inr queries))"
proof (intro conjI impI allI)
  assume "main_terms = []"
  with assms(1) show "build_queries_by_main_group group_terms group_logic main_group = Inr []"
    by (simp add: build_queries_by_main_group_def)
next
  fix queries
  assume "build_queries_by_main_group group_terms group_logic main_group = Inr queries"
  with assms(1) have
    "queries_loop (sort main_terms) (static_groups group_terms main_group) group_logic main_group
       = Inr queries"
    by (simp add: build_queries_by_main_group_def)
  then have vals: "map fst queries = sort main_terms"
    by (simp add: queries_loop_Inr)
  show "sorted (map fst queries)" "distinct (map fst queries)"
    "set (map fst queries) = set main_terms"
    using assms(2) by (simp_all add: vals)
  have "length queries = length (map fst queries)" by simp
  also have "\<dots> = length main_terms" by (simp add: vals)
  also have "\<dots> = card (set main_terms)" using assms(2) by (simp add: distinct_card)
  finally show "length queries = card (set main_terms)" .
next
  assume "has_quote group_logic main_group \<and>
          (\<forall>(g, terms)\<in>set (static_groups group_terms main_group).
              has_quote group_logic g \<and> has_operator group_logic g)"
  then have "\<exists>queries. queries_loop (sort main_terms) (static_groups group_terms main_group)
                          group_logic main_group = Inr queries"
    by (intro queries_loop_ok) simp_all
  with assms(1) show
    "\<exists>queries. build_queries_by_main_group group_terms group_logic main_group = Inr queries"
    by (simp add: build_queries_by_main_group_def)
qed

theorem queries_by_main_group_cardinality_witness:
  "map_of [(lit ''fruit'', [lit ''banana'', lit ''apple''])] (lit ''fruit'')
     = Some [lit ''banana'', lit ''apple''] \<and>
   distinct [lit ''banana'', lit ''apple''] \<and>
   has_quote [(lit ''fruit'', [(lit ''quote'', PBool False), (lit ''operator'', PStr (lit ''OR'')),
                               (lit ''internal_operator'', PStr (lit ''OR''))])] (lit ''fruit'') \<and>
   static_groups [(lit ''fruit'', [lit ''banana'', lit ''apple''])] (lit ''fruit'') = [] \<and>
   build_queries_by_main_group [(lit ''fruit'', [lit ''banana'', lit ''apple''])]
     [(lit ''fruit'', [(lit ''quote'', PBool False), (lit ''operator'', PStr (lit ''OR'')),
                       (lit ''internal_operator'', PStr (lit ''OR''))])] (lit ''fruit'')
     = Inr [(lit ''apple'', lit ''(apple)''), (lit ''banana'', lit ''(banana)'')] \<and>
   sorted [lit ''apple'', lit ''banana''] \<and>
   card (set [lit ''banana'', lit ''apple'']) = 2 \<and>
   build_queries_by_main_group [(lit ''fruit'', [])] [] (lit ''fruit'') = Inr []"
proof -
  let ?T = "[(lit ''fruit'', [lit ''banana'', lit ''apple''])]"
  let ?L = "[(lit ''fruit'', [(lit ''quote'', PBool False), (lit ''operator'', PStr (lit ''OR'')),
                              (lit ''internal_operator'', PStr (lit ''OR''))])]"
  let ?Q = "[(lit ''apple'', lit ''(apple)''), (lit ''banana'', lit ''(banana)'')]"
  have h1: "map_of ?T (lit ''fruit'') = Some [lit ''banana'', lit ''apple'']"
    by (simp add: lit_simps)
  have h2: "distinct [lit ''banana'', lit ''apple'']" by (simp add: lit_simps)
  have h3: "has_quote ?L (lit ''fruit'')" by (simp add: has_quote_def lit_simps)
  have h4: "static_groups ?T (lit ''fruit'') = []" by (simp add: static_groups_def lit_simps)
  have r: "build_queries_by_main_group ?T ?L (lit ''fruit'') = Inr ?Q"
    by (simp add: eval_simps)
  from queries_by_main_group_cardinality [OF h1 h2, of ?L] r
  have "sorted (map fst ?Q) \<and> length ?Q = card (set [lit ''banana'', lit ''apple''])"
    by blast
  then have c: "sorted [lit ''apple'', lit ''banana'']"
    "card (set [lit ''banana'', lit ''apple'']) = 2" by simp_all
  have e1: "map_of [(lit ''fruit'', [])] (lit ''fruit'') = Some ([] :: str_set)" by simp
  have e2: "distinct ([] :: str_set)" by simp
  from queries_by_main_group_cardinality [OF e1 e2, of "[]"]
  have e: "build_queries_by_main_group [(lit ''fruit'', [])] [] (lit ''fruit'') = Inr []"
    by blast
  from h1 h2 h3 h4 r c e show ?thesis by blast
qed

text \<open>
  Claim C3: every query that \<open>build_queries_by_main_group\<close> produces for a value \<open>v\<close> of
  the main group is the concatenation, joined by single spaces, of the formatted clause
  of each static group that is not empty followed by a space and that group's operator,
  in the order of the groups in the terms mapping, and last the clause of the main group
  formatted from the singleton set \<open>{v}\<close> with the main group's own quote setting and
  internal operator, with no operator after it.  The settings it names were all read
  from the logic mapping.
\<close>

theorem queries_by_main_group_shape:
  assumes "distinct (map fst group_terms)"
    and "map_of group_terms main_group = Some main_terms"
    and "build_queries_by_main_group group_terms group_logic main_group = Inr queries"
    and "(v, query) \<in> set queries"
  shows "v \<in> set main_terms \<and>
         has_quote group_logic main_group \<and>
         (\<forall>(g, terms)\<in>set (filter (\<lambda>(g, terms). g \<noteq> main_group \<and> terms \<noteq> []) group_terms).
            has_quote group_logic g \<and> has_operator group_logic g) \<and>
         query = str_join (lit '' '')
           (map (\<lambda>(g, terms). clause_of group_logic g terms @ lit '' '' @ operator_of group_logic g)
                (filter (\<lambda>(g, terms). g \<noteq> main_group \<and> terms \<noteq> []) group_terms)
            @ [clause_of group_logic main_group [v]])"
proof -
  let ?static = "static_groups group_terms main_group"
  have static: "?static = filter (\<lambda>(g, terms). g \<noteq> main_group \<and> terms \<noteq> []) group_terms"
    using assms(1) by (rule static_groups_filter)
  from assms(2,3) have loop:
    "queries_loop (sort main_terms) ?static group_logic main_group = Inr queries"
    by (simp add: build_queries_by_main_group_def)
  from queries_loop_Inr [OF loop] assms(4) have
    vals: "map fst queries = sort main_terms" and
    q: "query_for_value ?static group_logic main_group v = Inr query"
    by auto
  from assms(4) have "v \<in> set (map fst queries)" by force
  with vals have "v \<in> set main_terms" by simp
  moreover note query_for_value_Inr_settings [OF q, unfolded static]
  moreover note query_for_value_Inr [OF q, unfolded static]
  ultimately show ?thesis by blast
qed

theorem queries_by_main_group_shape_witness:
  "distinct (map fst [(lit ''color'', [lit ''red'', lit ''blue'']), (lit ''empty'', []),
                      (lit ''size'', [lit ''large''])]) \<and>
   map_of [(lit ''color'', [lit ''red'', lit ''blue'']), (lit ''empty'', []),
           (lit ''size'', [lit ''large''])] (lit ''color'') = Some [lit ''red'', lit ''blue''] \<and>
   build_queries_by_main_group
     [(lit ''color'', [lit ''red'', lit ''blue'']), (lit ''empty'', []),
      (lit ''size'', [lit ''large''])]
     [(lit ''color'', [(lit ''quote'', PBool False), (lit ''operator'', PStr (lit ''OR''))]),
      (lit ''size'', [(lit ''quote'', PBool True), (lit ''operator'', PStr (lit ''AND''))])]
     (lit ''color'')
   = Inr [(lit ''blue'', lit ''(\"large\") AND (blue)''),
          (lit ''red'', lit ''(\"large\") AND (red)'')] \<and>
   lit ''(\"large\") AND (blue)'' =
     str_join (lit '' '') [lit ''(\"large\")'' @ lit '' '' @ lit ''AND'', lit ''(blue)'']"
proof -
  let ?T = "[(lit ''color'', [lit ''red'', lit ''blue'']), (lit ''empty'', []),
             (lit ''size'', [lit ''large''])]"
  let ?L = "[(lit ''color'', [(lit ''quote'', PBool False), (lit ''operator'', PStr (lit ''OR''))]),
             (lit ''size'', [(lit ''quote'', PBool True), (lit ''operator'', PStr (lit ''AND''))])]"
  let ?Q = "[(lit ''blue'', lit ''(\"large\") AND (blue)''),
             (lit ''red'', lit ''(\"large\") AND (red)'')]"
  have h1: "distinct (map fst ?T)" by (simp add: lit_simps)
  have h2: "map_of ?T (lit ''color'') = Some [lit ''red'', lit ''blue'']" by (simp add: lit_simps)
  have h3: "build_queries_by_main_group ?T ?L (lit ''color'') = Inr ?Q"
    by (simp add: eval_simps)
  have h4: "(lit ''blue'', lit ''(\"large\") AND (blue)'') \<in> set ?Q" by simp
  have c: "clause_of ?L (lit ''size'') [lit ''large''] = lit ''(\"large\")''"
    "operator_of ?L (lit ''size'') = lit ''AND''"
    "clause_of ?L (lit ''color'') [lit ''blue''] = lit ''(blue)''"
    by (simp_all add: eval_simps settings_simps)
  from queries_by_main_group_shape [OF h1 h2 h3 h4]
  have "lit ''(\"large\") AND (blue)'' =
     str_join (lit '' '') [lit ''(\"large\")'' @ lit '' '' @ lit ''AND'', lit ''(blue)'']"
    unfolding c by (simp add: lit_simps c)
  with h1 h2 h3 show ?thesis by blast
qed

end
